theory Spec2Isabelle
  imports Complex_Main
begin

section \<open>The game component of src/App.tsx\<close>

text \<open>
  The component holds seven pieces of React state and one ref that survives renders.
  Every value of type \<^verbatim>\<open>number\<close> that carries a coordinate or a velocity is
  modelled as a \<^typ>\<open>real\<close>, the two scores (which only ever hold whole numbers) as
  \<^typ>\<open>int\<close>. Rounding of IEEE doubles is not modelled: the coordinates of the
  obstacles are whole multiples of four, and the properties below compare values, they
  do not depend on the last bit of a sum.
\<close>

subsection \<open>Data model\<close>

text \<open>\<^verbatim>\<open>interface Pipe { x: number; gapY: number; passed: boolean; }\<close>\<close>

record Pipe =
  x :: real
  gapY :: real
  passed :: bool

text \<open>\<^verbatim>\<open>useState<'idle' | 'playing' | 'dead'>('idle')\<close>\<close>

datatype GameState = Idle | Playing | Dead

definition GRAVITY :: real where "GRAVITY = 6 / 10"
definition JUMP_FORCE :: real where "JUMP_FORCE = - 10"
definition PIPE_WIDTH :: real where "PIPE_WIDTH = 80"
definition PIPE_GAP :: real where "PIPE_GAP = 180"
definition PIPE_SPEED :: real where "PIPE_SPEED = 4"
definition BIRD_SIZE :: real where "BIRD_SIZE = 50"
definition GAME_WIDTH :: real where "GAME_WIDTH = 400"
definition GAME_HEIGHT :: real where "GAME_HEIGHT = 600"

text \<open>
  The state of the component: the values of the \<^verbatim>\<open>useState\<close> hooks and the current
  value of \<^verbatim>\<open>lastPipeRef\<close>. (\<^verbatim>\<open>gameLoopRef\<close> only holds the handle of the
  scheduled animation frame and is not modelled.)
\<close>

record App =
  gameState :: GameState
  birdY :: real
  birdVelocity :: real
  pipes :: "Pipe list"
  score :: int
  highScore :: int
  birdRotation :: real
  lastPipeRef :: real

text \<open>The initial values given to the hooks.\<close>

definition initial :: App where
  "initial =
     \<lparr> gameState = Idle, birdY = GAME_HEIGHT / 2, birdVelocity = 0, pipes = [],
       score = 0, highScore = 0, birdRotation = 0, lastPipeRef = 0 \<rparr>"

subsection \<open>The input handler \<^verbatim>\<open>jump\<close>\<close>

text \<open>
  \<^verbatim>\<open>jump\<close> is rebuilt whenever \<^verbatim>\<open>gameState\<close> changes, so the phase it tests is
  the current one. The three branches follow the source's \<^verbatim>\<open>if / else if\<close> chain.
\<close>

definition jump :: "App \<Rightarrow> App" where
  "jump s =
     (if gameState s = Idle then
        s\<lparr> gameState := Playing, birdVelocity := JUMP_FORCE \<rparr>
      else if gameState s = Playing then
        s\<lparr> birdVelocity := JUMP_FORCE \<rparr>
      else
        s\<lparr> birdY := GAME_HEIGHT / 2, birdVelocity := 0, pipes := [], score := 0,
           birdRotation := 0, gameState := Idle \<rparr>)"

subsection \<open>The simulation step \<^verbatim>\<open>gameLoop\<close>\<close>

text \<open>
  One call of \<^verbatim>\<open>gameLoop\<close>. The effect that defines it lists \<^verbatim>\<open>birdVelocity\<close>
  among its dependencies, so the closure is rebuilt after every change of the velocity
  and the variable \<^verbatim>\<open>birdVelocity\<close> read inside the call is the velocity of the state the
  call starts from. \<^verbatim>\<open>setBirdVelocity(v => v + GRAVITY)\<close> only queues the new velocity;
  the updater given to \<^verbatim>\<open>setBirdY\<close> and the argument of \<^verbatim>\<open>setBirdRotation\<close> read the
  closure's \<^verbatim>\<open>birdVelocity\<close>.

  The argument \<open>r\<close> is the value returned by \<^verbatim>\<open>Math.random()\<close>, which is drawn only
  when an obstacle is spawned. The updater given to \<^verbatim>\<open>setPipes\<close>, which advances
  \<^verbatim>\<open>lastPipeRef\<close>, is taken to run once for each call of \<^verbatim>\<open>gameLoop\<close>.
\<close>

definition movePipe :: "Pipe \<Rightarrow> Pipe" where
  "movePipe pipe = pipe\<lparr> x := x pipe - PIPE_SPEED \<rparr>"

definition spawnGapY :: "real \<Rightarrow> real" where
  "spawnGapY r = r * (GAME_HEIGHT - PIPE_GAP - 150) + 75"

definition gameLoop :: "App \<Rightarrow> real \<Rightarrow> App" where
  "gameLoop s r =
     (let newY = birdY s + birdVelocity s;
          newPipes = filter (\<lambda>pipe. x pipe > - PIPE_WIDTH) (map movePipe (pipes s));
          current = lastPipeRef s + PIPE_SPEED
      in s\<lparr> birdVelocity := birdVelocity s + GRAVITY,
            birdY := max 0 (min (GAME_HEIGHT - BIRD_SIZE) newY),
            birdRotation := min 90 (max (- 30) (birdVelocity s * 3)),
            pipes := (if current > 200
                      then newPipes @ [\<lparr> x = GAME_WIDTH, gapY = spawnGapY r, passed = False \<rparr>]
                      else newPipes),
            lastPipeRef := (if current > 200 then 0 else current) \<rparr>)"

text \<open>
  The effect around it: \<^verbatim>\<open>if (gameState !== 'playing') return;\<close>, so a frame is only
  ever scheduled while the phase is \<^verbatim>\<open>playing\<close>.
\<close>

definition gameLoopEffect :: "App \<Rightarrow> real \<Rightarrow> App" where
  "gameLoopEffect s r = (if gameState s \<noteq> Playing then s else gameLoop s r)"

subsection \<open>The collision and scoring effect\<close>

definition birdLeft :: real where "birdLeft = 80"
definition birdRight :: real where "birdRight = birdLeft + BIRD_SIZE"

text \<open>
  The body of \<^verbatim>\<open>for (const pipe of pipes)\<close>. The result is the obstacle list after the
  assignments \<^verbatim>\<open>pipe.passed = true\<close> (the objects are the ones held in the state), the
  number of queued \<^verbatim>\<open>setScore(s => s + 1)\<close> calls, and whether the loop was left through
  the \<^verbatim>\<open>return\<close> of the collision branch. An obstacle reached after that
  \<^verbatim>\<open>return\<close> is not looked at.
\<close>

fun pipeLoop :: "real \<Rightarrow> Pipe list \<Rightarrow> Pipe list \<times> int \<times> bool" where
  "pipeLoop y [] = ([], 0, False)"
| "pipeLoop y (pipe # rest) =
     (let birdTop = y; birdBottom = y + BIRD_SIZE;
          pipeLeft = x pipe; pipeRight = x pipe + PIPE_WIDTH
      in if (birdRight > pipeLeft \<and> birdLeft < pipeRight)
            \<and> (birdTop < gapY pipe \<or> birdBottom > gapY pipe + PIPE_GAP)
         then (pipe # rest, 0, True)
         else (case pipeLoop y rest of (rest', n, dead) \<Rightarrow>
                 if \<not> passed pipe \<and> x pipe + PIPE_WIDTH < birdLeft
                 then (pipe\<lparr> passed := True \<rparr> # rest', n + 1, dead)
                 else (pipe # rest', n, dead)))"

text \<open>
  \<^verbatim>\<open>setGameState('dead'); if (score > highScore) setHighScore(score);\<close> where
  \<^verbatim>\<open>score\<close> and \<^verbatim>\<open>highScore\<close> are the values of the render the effect belongs to.
\<close>

definition die :: "App \<Rightarrow> App \<Rightarrow> App" where
  "die s0 s =
     s\<lparr> gameState := Dead,
        highScore := (if score s0 > highScore s0 then score s0 else highScore s0) \<rparr>"

definition collisionEffect :: "App \<Rightarrow> App" where
  "collisionEffect s =
     (if gameState s \<noteq> Playing then s
      else
        let birdTop = birdY s; birdBottom = birdY s + BIRD_SIZE
        in if birdTop \<le> 0 \<or> birdBottom \<ge> GAME_HEIGHT then die s s
           else (case pipeLoop (birdY s) (pipes s) of (pipes', n, dead) \<Rightarrow>
                   let s' = s\<lparr> pipes := pipes', score := score s + n \<rparr>
                   in if dead then die s s' else s'))"

subsection \<open>Runs of the component\<close>

text \<open>
  One transition of the component is an activation, a frame (with a random draw in
  \<open>[0, 1)\<close>) or a run of the collision effect; the reachable states are those a sequence
  of transitions leads to from the initial state. No order between frames and runs of
  the collision effect is imposed, so \<open>reachable\<close> holds of every state of the
  component (lemmas \<open>played_reachable\<close> and \<open>evaluated_reachable\<close>) and of more:
  what is proved of the reachable states holds of the states of the component.
\<close>

inductive step :: "App \<Rightarrow> App \<Rightarrow> bool" where
  activate: "step s (jump s)"
| frame: "0 \<le> r \<Longrightarrow> r < 1 \<Longrightarrow> step s (gameLoopEffect s r)"
| evaluate: "step s (collisionEffect s)"

inductive reachable :: "App \<Rightarrow> bool" where
  reach_initial: "reachable initial"
| reach_step: "reachable s \<Longrightarrow> step s s' \<Longrightarrow> reachable s'"

text \<open>
  The schedule of the component itself. The collision effect lists \<^verbatim>\<open>pipes\<close> among
  its dependencies and every call of \<^verbatim>\<open>gameLoop\<close> stores a new array, so the effect
  runs after every frame; it also runs after an activation that changes the phase, and
  once more after it has changed the score. (An activation during play changes only the
  velocity and does not trigger the effect; a run there would change nothing, see
  lemmas \<open>collisionEffect_jump_playing\<close> and \<open>collisionEffect_played\<close>.)
  \<open>played\<close> holds of the states the component rests in, after the effect has run:
  the initial state, and the states the effect leaves after an activation, after a frame,
  and after a frame with an activation arriving before the effect runs. \<open>evaluated\<close>
  holds of the states handed to the effect.
\<close>

inductive played :: "App \<Rightarrow> bool" where
  played_initial: "played initial"
| played_activate: "played s \<Longrightarrow> played (collisionEffect (jump s))"
| played_frame: "played s \<Longrightarrow> 0 \<le> r \<Longrightarrow> r < 1 \<Longrightarrow> played (collisionEffect (gameLoopEffect s r))"
| played_frame_activate:
    "played s \<Longrightarrow> 0 \<le> r \<Longrightarrow> r < 1 \<Longrightarrow> played (collisionEffect (jump (gameLoopEffect s r)))"

inductive evaluated :: "App \<Rightarrow> bool" where
  eval_again: "played s \<Longrightarrow> evaluated s"
| eval_activate: "played s \<Longrightarrow> evaluated (jump s)"
| eval_frame: "played s \<Longrightarrow> 0 \<le> r \<Longrightarrow> r < 1 \<Longrightarrow> evaluated (gameLoopEffect s r)"
| eval_frame_activate:
    "played s \<Longrightarrow> 0 \<le> r \<Longrightarrow> r < 1 \<Longrightarrow> evaluated (jump (gameLoopEffect s r))"

subsection \<open>Invariants\<close>

text \<open>
  What every obstacle list of a run satisfies, given the current value \<open>l\<close> of
  \<^verbatim>\<open>lastPipeRef\<close>: no obstacle has left the screen, none is further right than the
  distance scrolled since the last spawn allows, every gap offset lies in the range the
  spawn formula produces, and successive obstacles are more than 200 apart (an obstacle
  is spawned only after the accumulator has passed 200).
\<close>

definition pipesInv :: "real \<Rightarrow> Pipe list \<Rightarrow> bool" where
  "pipesInv l ps =
     ((\<forall>p \<in> set ps. - PIPE_WIDTH < x p \<and> x p \<le> GAME_WIDTH - l
                      \<and> 75 \<le> gapY p \<and> gapY p + PIPE_GAP + 75 \<le> GAME_HEIGHT)
      \<and> sorted_wrt (\<lambda>p q. 200 < x q - x p) ps)"

definition appInv :: "App \<Rightarrow> bool" where
  "appInv s =
     (0 \<le> birdY s \<and> birdY s \<le> GAME_HEIGHT - BIRD_SIZE
      \<and> pipesInv (lastPipeRef s) (pipes s))"

text \<open>
  The effect of one pass of the scoring branch on a single obstacle:
  \<^verbatim>\<open>if (!pipe.passed && pipe.x + PIPE_WIDTH < birdLeft) pipe.passed = true\<close>.
\<close>

definition markPassed :: "Pipe \<Rightarrow> Pipe" where
  "markPassed pipe =
     (if \<not> passed pipe \<and> x pipe + PIPE_WIDTH < birdLeft then pipe\<lparr> passed := True \<rparr> else pipe)"

text \<open>
  The invariant of the played states. A frame that does not clamp the position keeps
  \<open>energy\<close> as it is, and an activation sets it to at most 106, which bounds the speed of
  a character that is inside the playfield. \<open>preInv\<close> holds of every state handed to
  the collision effect, \<open>playedInv\<close> of every state the effect leaves: while the phase
  is \<^verbatim>\<open>playing\<close> the character is strictly inside the playfield, every obstacle left
  of the character is marked, and the character is within the gap of every obstacle it
  overlaps.
\<close>

definition energy :: "App \<Rightarrow> real" where
  "energy s = (birdVelocity s)\<^sup>2 - GRAVITY * birdVelocity s - 2 * GRAVITY * birdY s"

definition preInv :: "App \<Rightarrow> bool" where
  "preInv s =
     (appInv s
      \<and> (gameState s = Idle \<longrightarrow> pipes s = [] \<and> birdY s = GAME_HEIGHT / 2)
      \<and> (gameState s = Playing \<longrightarrow>
            JUMP_FORCE \<le> birdVelocity s
            \<and> (0 < birdY s \<and> birdY s + BIRD_SIZE < GAME_HEIGHT \<longrightarrow> energy s \<le> 106)
            \<and> (\<forall>p \<in> set (pipes s). - PIPE_SPEED < x p \<and> x p \<le> 0 \<longrightarrow>
                   65 \<le> birdY s \<and> birdY s \<le> 503)))"

definition playedInv :: "App \<Rightarrow> bool" where
  "playedInv s =
     (preInv s
      \<and> (gameState s = Playing \<longrightarrow>
            0 < birdY s \<and> birdY s + BIRD_SIZE < GAME_HEIGHT
            \<and> (\<forall>p \<in> set (pipes s).
                  (x p + PIPE_WIDTH < birdLeft \<longrightarrow> passed p)
                  \<and> (birdRight > x p \<and> birdLeft < x p + PIPE_WIDTH \<longrightarrow>
                       gapY p \<le> birdY s \<and> birdY s + BIRD_SIZE \<le> gapY p + PIPE_GAP))))"

subsection \<open>Some states of a round\<close>

text \<open>
  \<open>plainFrame r\<close> is one frame in which \<^verbatim>\<open>Math.random()\<close> returns \<open>r\<close>,
  \<open>flapFrame r\<close> one activation followed by such a frame. \<open>inGapState\<close> is reached
  from the initial state by activations and frames (lemma \<open>inGapState_run\<close>): the
  character is inside the first obstacle, its top edge on the top of the gap.
\<close>

definition plainFrame :: "real \<Rightarrow> App \<Rightarrow> App" where
  "plainFrame r s = gameLoopEffect s r"

definition flapFrame :: "real \<Rightarrow> App \<Rightarrow> App" where
  "flapFrame r s = gameLoopEffect (jump s) r"

definition inGapState :: App where
  "inGapState =
     \<lparr> gameState = Playing, birdY = 150, birdVelocity = - 94 / 10,
       pipes = [\<lparr> x = 124, gapY = 150, passed = False \<rparr>,
                \<lparr> x = 328, gapY = 150, passed = False \<rparr>],
       score = 0, highScore = 0, birdRotation = - 30, lastPipeRef = 72 \<rparr>"

text \<open>A state one frame before a spawn: the accumulator stands at 200.\<close>

definition passingState :: App where
  "passingState =
     \<lparr> gameState = Playing, birdY = 540, birdVelocity = - 94 / 10,
       pipes = [\<lparr> x = - 4, gapY = 75, passed = False \<rparr>,
                \<lparr> x = 200, gapY = 75, passed = False \<rparr>],
       score = 0, highScore = 0, birdRotation = - 30, lastPipeRef = 200 \<rparr>"






text \<open>The character stands on the bottom of the playfield with three points.\<close>

definition floorState :: App where
  "floorState =
     \<lparr> gameState = Playing, birdY = 550, birdVelocity = 12, pipes = [],
       score = 3, highScore = 1, birdRotation = 36, lastPipeRef = 40 \<rparr>"

text \<open>The first obstacle is about to leave the screen.\<close>

definition leavingState :: App where
  "leavingState =
     \<lparr> gameState = Playing, birdY = 250, birdVelocity = 2,
       pipes = [\<lparr> x = - 76, gapY = 100, passed = True \<rparr>,
                \<lparr> x = 128, gapY = 150, passed = False \<rparr>],
       score = 1, highScore = 0, birdRotation = 6, lastPipeRef = 68 \<rparr>"

text \<open>A round that ended on the bottom of the playfield, one frame before a spawn.\<close>

definition deadState :: App where
  "deadState =
     \<lparr> gameState = Dead, birdY = 550, birdVelocity = 12,
       pipes = [\<lparr> x = 200, gapY = 300, passed = False \<rparr>],
       score = 2, highScore = 2, birdRotation = 36, lastPipeRef = 200 \<rparr>"

section \<open>Properties\<close>

lemmas consts_defs =
  GRAVITY_def JUMP_FORCE_def PIPE_WIDTH_def PIPE_GAP_def PIPE_SPEED_def
  BIRD_SIZE_def GAME_WIDTH_def GAME_HEIGHT_def birdLeft_def birdRight_def

subsection \<open>The obstacle loop\<close>

lemma pipeLoop_dead_iff:
  "snd (snd (pipeLoop y ps)) =
     (\<exists>p \<in> set ps. (birdRight > x p \<and> birdLeft < x p + PIPE_WIDTH)
                    \<and> (y < gapY p \<or> y + BIRD_SIZE > gapY p + PIPE_GAP))"
  by (induction ps) (auto simp: Let_def split: prod.splits)

lemma pipeLoop_rel:
  "list_all2 (\<lambda>p p'. x p' = x p \<and> gapY p' = gapY p \<and> (passed p \<longrightarrow> passed p'))
     ps (fst (pipeLoop y ps))"
  by (induction ps) (auto simp: Let_def list.rel_refl split: prod.splits)

lemma pipeLoop_map_x: "map x (fst (pipeLoop y ps)) = map x ps"
  by (induction ps) (auto simp: Let_def split: prod.splits)

lemma sorted_wrt_map_x:
  "sorted_wrt (\<lambda>p q. 200 < x q - x p) ps = sorted_wrt (\<lambda>a b. 200 < b - a) (map x ps)"
  by (simp add: sorted_wrt_map)

lemma pipesInv_pipeLoop:
  assumes "pipesInv l ps"
  shows "pipesInv l (fst (pipeLoop y ps))"
proof -
  let ?qs = "fst (pipeLoop y ps)"
  have rel: "list_all2 (\<lambda>p p'. x p' = x p \<and> gapY p' = gapY p \<and> (passed p \<longrightarrow> passed p')) ps ?qs"
    by (rule pipeLoop_rel)
  have "\<forall>q \<in> set ?qs. \<exists>p \<in> set ps. x q = x p \<and> gapY q = gapY p"
  proof
    fix q assume "q \<in> set ?qs"
    then obtain i where i: "i < length ?qs" "q = ?qs ! i" by (auto simp: in_set_conv_nth)
    with rel have "i < length ps" "x q = x (ps ! i) \<and> gapY q = gapY (ps ! i)"
      by (auto simp: list_all2_conv_all_nth)
    then show "\<exists>p \<in> set ps. x q = x p \<and> gapY q = gapY p" by (metis nth_mem)
  qed
  moreover have "sorted_wrt (\<lambda>p q. 200 < x q - x p) ?qs"
    using assms by (simp add: sorted_wrt_map_x pipeLoop_map_x pipesInv_def)
  ultimately show ?thesis using assms unfolding pipesInv_def by fastforce
qed

lemma sorted_wrt_cases:
  "sorted_wrt R xs \<Longrightarrow> p \<in> set xs \<Longrightarrow> q \<in> set xs \<Longrightarrow> p = q \<or> R p q \<or> R q p"
  by (induction xs) auto

lemma appInv_initial: "appInv initial"
  by (simp add: appInv_def pipesInv_def initial_def consts_defs)

lemma appInv_jump: "appInv s \<Longrightarrow> appInv (jump s)"
  by (auto simp: appInv_def pipesInv_def jump_def consts_defs)

lemma spawnGapY_bounds:
  "0 \<le> r \<Longrightarrow> r < 1 \<Longrightarrow> 75 \<le> spawnGapY r \<and> spawnGapY r + PIPE_GAP + 75 \<le> GAME_HEIGHT"
  by (simp add: spawnGapY_def consts_defs)

lemma pipesInv_move:
  assumes "pipesInv l ps"
  shows "pipesInv (l + PIPE_SPEED) (filter (\<lambda>pipe. x pipe > - PIPE_WIDTH) (map movePipe ps))"
proof -
  have "sorted_wrt (\<lambda>p q. 200 < x q - x p) (map movePipe ps)"
    using assms by (simp add: pipesInv_def sorted_wrt_map movePipe_def)
  then have "sorted_wrt (\<lambda>p q. 200 < x q - x p) (filter (\<lambda>pipe. x pipe > - PIPE_WIDTH) (map movePipe ps))"
    by (rule sorted_wrt_filter)
  then show ?thesis using assms
    by (auto simp: pipesInv_def movePipe_def)
qed

lemma pipesInv_spawn:
  assumes "pipesInv l ps" "200 < l" "75 \<le> g" "g + PIPE_GAP + 75 \<le> GAME_HEIGHT"
  shows "pipesInv 0 (ps @ [\<lparr> x = GAME_WIDTH, gapY = g, passed = False \<rparr>])"
  using assms by (auto simp: pipesInv_def sorted_wrt_append consts_defs)

lemma appInv_gameLoop:
  assumes "appInv s" "0 \<le> r" "r < 1"
  shows "appInv (gameLoop s r)"
proof -
  have m: "pipesInv (lastPipeRef s + PIPE_SPEED)
             (filter (\<lambda>pipe. x pipe > - PIPE_WIDTH) (map movePipe (pipes s)))"
    using assms(1) by (simp add: appInv_def pipesInv_move)
  have y: "0 \<le> birdY (gameLoop s r) \<and> birdY (gameLoop s r) \<le> GAME_HEIGHT - BIRD_SIZE"
    by (simp add: gameLoop_def Let_def consts_defs)
  show ?thesis
  proof (cases "200 < lastPipeRef s + PIPE_SPEED")
    case True
    from pipesInv_spawn [OF m True] spawnGapY_bounds [OF assms(2,3)]
    have "pipesInv 0 (filter (\<lambda>pipe. x pipe > - PIPE_WIDTH) (map movePipe (pipes s))
                       @ [\<lparr> x = GAME_WIDTH, gapY = spawnGapY r, passed = False \<rparr>])"
      by simp
    with True y show ?thesis by (simp add: appInv_def gameLoop_def Let_def)
  next
    case False
    with m y show ?thesis by (simp add: appInv_def gameLoop_def Let_def)
  qed
qed

lemma appInv_collisionEffect:
  assumes "appInv s"
  shows "appInv (collisionEffect s)"
proof -
  have "pipesInv (lastPipeRef s) (fst (pipeLoop (birdY s) (pipes s)))"
    using assms by (simp add: appInv_def pipesInv_pipeLoop)
  then show ?thesis using assms
    by (auto simp: appInv_def collisionEffect_def die_def Let_def split: prod.splits)
qed

lemma appInv_step: "step s s' \<Longrightarrow> appInv s \<Longrightarrow> appInv s'"
  by (induction rule: step.induct)
     (auto simp: appInv_jump appInv_gameLoop appInv_collisionEffect gameLoopEffect_def)

lemma reachable_appInv: "reachable s \<Longrightarrow> appInv s"
  by (induction rule: reachable.induct) (auto simp: appInv_initial appInv_step)

subsection \<open>The run that leads to \<open>inGapState\<close>\<close>

lemma reachable_frames:
  assumes "reachable s" "0 \<le> r" "r < 1"
  shows "reachable ((plainFrame r ^^ n) s)"
  by (induction n) (simp_all add: assms plainFrame_def reach_step [OF _ step.frame])

lemma reachable_flapFrame:
  assumes "reachable s" "0 \<le> r" "r < 1"
  shows "reachable (flapFrame r s)"
  unfolding flapFrame_def
  by (rule reach_step [OF reach_step [OF assms(1) step.activate] step.frame [OF assms(2,3)]])

lemma reachable_flapFrames:
  assumes "reachable s" "0 \<le> r" "r < 1"
  shows "reachable ((flapFrame r ^^ n) s)"
  by (induction n) (simp_all add: assms reachable_flapFrame)

lemmas run_defs =
  plainFrame_def flapFrame_def gameLoopEffect_def gameLoop_def jump_def initial_def movePipe_def
  spawnGapY_def Let_def consts_defs

lemma inGapState_run:
  "inGapState =
     (flapFrame (5 / 18) ^^ 40) ((plainFrame (5 / 18) ^^ 80) (jump initial))"
  by (simp add: eval_nat_numeral inGapState_def run_defs)

lemma reachable_jump_initial: "reachable (jump initial)"
  by (rule reach_step [OF reach_initial step.activate])

lemma reachable_inGapState: "reachable inGapState"
  unfolding inGapState_run
  by (rule reachable_flapFrames [OF reachable_frames [OF reachable_jump_initial]]) simp_all

subsection \<open>Order of the velocity and position updates\<close>

text \<open>
  C1, as stated, fails. After the first activation the velocity is \<open>-10\<close> and the
  position \<open>300\<close>; one frame later the velocity is \<open>-9.4\<close> and the position is \<open>290\<close>,
  not the \<open>290.6\<close> that adding the new velocity would give.
\<close>

theorem position_uses_new_velocity_counterexample:
  "gameState (jump initial) = Playing
   \<and> birdVelocity (gameLoopEffect (jump initial) 0) = birdVelocity (jump initial) + GRAVITY
   \<and> birdY (gameLoopEffect (jump initial) 0)
       \<noteq> max 0 (min (GAME_HEIGHT - BIRD_SIZE)
               (birdY (jump initial) + birdVelocity (gameLoopEffect (jump initial) 0)))"
  by (simp add: gameLoopEffect_def gameLoop_def Let_def jump_def initial_def consts_defs)

text \<open>
  C1 (amended). In every simulation step taken while the phase is \<^verbatim>\<open>playing\<close>, the
  velocity is incremented by the gravity constant, and the position is incremented by
  the velocity the step started with (the velocity before this step's gravity) and then
  clamped to \<open>[0, GAME_HEIGHT - BIRD_SIZE]\<close>.
\<close>

theorem gameLoop_position_uses_old_velocity:
  assumes "gameState s = Playing"
  shows "birdVelocity (gameLoopEffect s r) = birdVelocity s + GRAVITY
       \<and> birdY (gameLoopEffect s r)
           = max 0 (min (GAME_HEIGHT - BIRD_SIZE) (birdY s + birdVelocity s))"
  using assms by (simp add: gameLoopEffect_def gameLoop_def Let_def)

theorem gameLoop_position_uses_old_velocity_witness:
  "gameState (jump initial) = Playing
   \<and> birdVelocity (gameLoopEffect (jump initial) 0) = - 10 + 6 / 10
   \<and> birdY (gameLoopEffect (jump initial) 0) = 290"
proof -
  have p: "gameState (jump initial) = Playing" by (simp add: jump_def initial_def)
  show ?thesis
    using p gameLoop_position_uses_old_velocity [OF p, of 0]
    by (simp add: jump_def initial_def consts_defs)
qed

subsection \<open>The character stays inside the playfield\<close>

text \<open>
  C2. In every reachable state, that is after any sequence of activations, simulation
  steps and runs of the collision effect, the character's vertical position lies in
  \<open>[0, GAME_HEIGHT - BIRD_SIZE]\<close>, which is \<open>[0, 600 - 50]\<close>.
\<close>

theorem birdY_within_playfield:
  assumes "reachable s"
  shows "0 \<le> birdY s \<and> birdY s \<le> GAME_HEIGHT - BIRD_SIZE \<and> birdY s \<le> 600 - 50"
  using reachable_appInv [OF assms] by (simp add: appInv_def consts_defs)

theorem birdY_within_playfield_witness:
  "reachable (collisionEffect (gameLoopEffect (jump initial) (1 / 2)))
   \<and> 0 \<le> birdY (collisionEffect (gameLoopEffect (jump initial) (1 / 2)))
   \<and> birdY (collisionEffect (gameLoopEffect (jump initial) (1 / 2))) \<le> 550"
proof -
  have "reachable (jump initial)"
    by (rule reach_step [OF reach_initial step.activate])
  then have "reachable (gameLoopEffect (jump initial) (1 / 2))"
    by (rule reach_step) (rule step.frame, simp_all)
  then have r: "reachable (collisionEffect (gameLoopEffect (jump initial) (1 / 2)))"
    by (rule reach_step) (rule step.evaluate)
  show ?thesis using r birdY_within_playfield [OF r] by simp
qed

subsection \<open>Collision with an obstacle\<close>

lemma collisionEffect_dead_iff:
  assumes "gameState s = Playing"
  shows "(gameState (collisionEffect s) = Dead) =
           (birdY s \<le> 0 \<or> birdY s + BIRD_SIZE \<ge> GAME_HEIGHT
            \<or> (\<exists>p \<in> set (pipes s). (birdRight > x p \<and> birdLeft < x p + PIPE_WIDTH)
                  \<and> (birdY s < gapY p \<or> birdY s + BIRD_SIZE > gapY p + PIPE_GAP)))"
proof -
  have "snd (snd (pipeLoop (birdY s) (pipes s))) =
          (\<exists>p \<in> set (pipes s). (birdRight > x p \<and> birdLeft < x p + PIPE_WIDTH)
                  \<and> (birdY s < gapY p \<or> birdY s + BIRD_SIZE > gapY p + PIPE_GAP))"
    by (rule pipeLoop_dead_iff)
  with assms show ?thesis
    by (auto simp: collisionEffect_def die_def Let_def split: prod.splits)
qed

lemma collisionEffect_phase:
  "gameState s = Playing \<Longrightarrow>
     gameState (collisionEffect s) = Playing \<or> gameState (collisionEffect s) = Dead"
  by (auto simp: collisionEffect_def die_def Let_def split: prod.splits)

lemma overlap_unique:
  assumes "pipesInv l ps" "p \<in> set ps" "q \<in> set ps"
      "birdRight > x p" "birdLeft < x p + PIPE_WIDTH"
      "birdRight > x q" "birdLeft < x q + PIPE_WIDTH"
  shows "p = q"
proof -
  have "sorted_wrt (\<lambda>p q. 200 < x q - x p) ps" using assms(1) by (simp add: pipesInv_def)
  from sorted_wrt_cases [OF this assms(2,3)]
  have "p = q \<or> 200 < x q - x p \<or> 200 < x p - x q" .
  with assms(4-7) show ?thesis by (auto simp: consts_defs)
qed

text \<open>
  C3. While the phase is \<^verbatim>\<open>playing\<close> and the character is not in a boundary
  collision, the collision effect ends the round exactly when some obstacle overlaps the
  character's horizontal span \<open>(birdLeft, birdRight)\<close>, both comparisons strict, and
  the character's vertical span is not within that obstacle's gap, both bounds
  inclusive. In a reachable state at most one obstacle overlaps and its gap lies inside
  the playfield, so there the round ends, for an overlapping obstacle, exactly when the
  character is not within the gap of that obstacle: with its top edge on the gap's top or its
  bottom edge on the gap's bottom the character survives, and the phase stays
  \<^verbatim>\<open>playing\<close>.
\<close>

theorem pipe_collision_iff_outside_gap:
  assumes "gameState s = Playing"
  shows "(\<not> (birdY s \<le> 0 \<or> birdY s + BIRD_SIZE \<ge> GAME_HEIGHT) \<longrightarrow>
            (gameState (collisionEffect s) = Dead) =
              (\<exists>pipe \<in> set (pipes s).
                  (birdRight > x pipe \<and> birdLeft < x pipe + PIPE_WIDTH)
                  \<and> \<not> (gapY pipe \<le> birdY s \<and> birdY s + BIRD_SIZE \<le> gapY pipe + PIPE_GAP)))
       \<and> (reachable s \<longrightarrow>
            (\<forall>pipe \<in> set (pipes s).
                birdRight > x pipe \<and> birdLeft < x pipe + PIPE_WIDTH \<longrightarrow>
                (gameState (collisionEffect s) = Dead) =
                  (\<not> (gapY pipe \<le> birdY s \<and> birdY s + BIRD_SIZE \<le> gapY pipe + PIPE_GAP))))
       \<and> (gameState (collisionEffect s) \<noteq> Dead \<longrightarrow> gameState (collisionEffect s) = Playing)"
proof (intro conjI impI ballI)
  assume "\<not> (birdY s \<le> 0 \<or> birdY s + BIRD_SIZE \<ge> GAME_HEIGHT)"
  then show "(gameState (collisionEffect s) = Dead) =
              (\<exists>pipe \<in> set (pipes s).
                  (birdRight > x pipe \<and> birdLeft < x pipe + PIPE_WIDTH)
                  \<and> \<not> (gapY pipe \<le> birdY s \<and> birdY s + BIRD_SIZE \<le> gapY pipe + PIPE_GAP))"
    by (simp add: collisionEffect_dead_iff [OF assms] not_le not_less) 
next
  fix pipe
  assume rs: "reachable s" and mem: "pipe \<in> set (pipes s)"
    and ov: "birdRight > x pipe \<and> birdLeft < x pipe + PIPE_WIDTH"
  let ?within = "gapY pipe \<le> birdY s \<and> birdY s + BIRD_SIZE \<le> gapY pipe + PIPE_GAP"
  from reachable_appInv [OF rs] have pinv: "pipesInv (lastPipeRef s) (pipes s)"
    by (simp add: appInv_def)
  from pinv mem have g: "75 \<le> gapY pipe" "gapY pipe + PIPE_GAP + 75 \<le> GAME_HEIGHT"
    by (auto simp: pipesInv_def)
  show "(gameState (collisionEffect s) = Dead) = (\<not> ?within)"
  proof
    assume "gameState (collisionEffect s) = Dead"
    then consider "birdY s \<le> 0 \<or> birdY s + BIRD_SIZE \<ge> GAME_HEIGHT"
      | q where "q \<in> set (pipes s)" "birdRight > x q \<and> birdLeft < x q + PIPE_WIDTH"
          "birdY s < gapY q \<or> birdY s + BIRD_SIZE > gapY q + PIPE_GAP"
      using collisionEffect_dead_iff [OF assms] by auto
    then show "\<not> ?within"
    proof cases
      case 1
      with g show ?thesis by (auto simp: consts_defs)
    next
      case 2
      with overlap_unique [OF pinv mem 2(1)] ov have "q = pipe" by simp
      with 2(3) show ?thesis by auto
    qed
  next
    assume "\<not> ?within"
    with mem ov show "gameState (collisionEffect s) = Dead"
      using collisionEffect_dead_iff [OF assms] by (auto simp: not_le)
  qed
next
  assume "gameState (collisionEffect s) \<noteq> Dead"
  with collisionEffect_phase [OF assms] show "gameState (collisionEffect s) = Playing" by simp
qed

theorem pipe_collision_iff_outside_gap_witness:
  "gameState inGapState = Playing \<and> reachable inGapState
   \<and> \<not> (birdY inGapState \<le> 0 \<or> birdY inGapState + BIRD_SIZE \<ge> GAME_HEIGHT)
   \<and> \<lparr> x = 124, gapY = 150, passed = False \<rparr> \<in> set (pipes inGapState)
   \<and> birdRight > 124 \<and> birdLeft < 124 + PIPE_WIDTH
   \<and> birdY inGapState = 150
   \<and> gameState (collisionEffect inGapState) \<noteq> Dead
   \<and> gameState (collisionEffect inGapState) = Playing"
proof -
  have p: "gameState inGapState = Playing" by (simp add: inGapState_def)
  have e: "\<lparr> x = 124, gapY = 150, passed = False \<rparr> \<in> set (pipes inGapState)"
    "birdY inGapState = 150"
    "\<not> (birdY inGapState \<le> 0 \<or> birdY inGapState + BIRD_SIZE \<ge> GAME_HEIGHT)"
    by (simp_all add: inGapState_def consts_defs)
  have o: "birdRight > x \<lparr> x = 124, gapY = 150, passed = False \<rparr>
           \<and> birdLeft < x \<lparr> x = 124, gapY = 150, passed = False \<rparr> + PIPE_WIDTH"
    by (simp add: consts_defs)
  have w: "gapY \<lparr> x = 124, gapY = 150, passed = False \<rparr> \<le> birdY inGapState
           \<and> birdY inGapState + BIRD_SIZE
               \<le> gapY \<lparr> x = 124, gapY = 150, passed = False \<rparr> + PIPE_GAP"
    by (simp add: inGapState_def consts_defs)
  from pipe_collision_iff_outside_gap [OF p] reachable_inGapState e(1) o w
  have n: "gameState (collisionEffect inGapState) \<noteq> Dead" by blast
  with pipe_collision_iff_outside_gap [OF p]
  have "gameState (collisionEffect inGapState) = Playing" by blast
  with n p reachable_inGapState e o show ?thesis by simp
qed

subsection \<open>Scoring\<close>

lemma pipeLoop_sorted:
  assumes "sorted_wrt (\<lambda>p q. 200 < x q - x p) ps"
  shows "fst (pipeLoop y ps) = map markPassed ps
       \<and> fst (snd (pipeLoop y ps))
           = int (length (filter (\<lambda>p. \<not> passed p \<and> x p + PIPE_WIDTH < birdLeft) ps))"
  using assms
proof (induction ps)
  case Nil
  then show ?case by simp
next
  case (Cons p ps)
  show ?case
  proof (cases "(birdRight > x p \<and> birdLeft < x p + PIPE_WIDTH)
                 \<and> (y < gapY p \<or> y + BIRD_SIZE > gapY p + PIPE_GAP)")
    case True
    then have p0: "\<not> x p + PIPE_WIDTH < birdLeft" by simp
    have rest: "\<forall>q \<in> set ps. \<not> x q + PIPE_WIDTH < birdLeft"
      using Cons.prems True by (auto simp: consts_defs)
    then have "map markPassed ps = ps"
      "filter (\<lambda>p. \<not> passed p \<and> x p + PIPE_WIDTH < birdLeft) ps = []"
      by (simp_all add: markPassed_def map_idI)
    moreover have "markPassed p = p" using p0 by (simp add: markPassed_def)
    ultimately show ?thesis using True p0 by (simp add: Let_def)
  next
    case False
    from Cons.prems have "sorted_wrt (\<lambda>p q. 200 < x q - x p) ps" by simp
    from Cons.IH [OF this] False show ?thesis
      by (auto simp: markPassed_def Let_def split: prod.splits)
  qed
qed




lemma collisionEffect_scores:
  assumes "appInv s" "gameState s = Playing"
      "\<not> (birdY s \<le> 0 \<or> birdY s + BIRD_SIZE \<ge> GAME_HEIGHT)"
  shows "pipes (collisionEffect s) = map markPassed (pipes s)
       \<and> score (collisionEffect s)
           = score s + int (length (filter (\<lambda>p. \<not> passed p \<and> x p + PIPE_WIDTH < birdLeft) (pipes s)))"
proof -
  have "sorted_wrt (\<lambda>p q. 200 < x q - x p) (pipes s)"
    using assms(1) by (simp add: appInv_def pipesInv_def)
  from pipeLoop_sorted [OF this, of "birdY s"] assms(2,3) show ?thesis
    by (auto simp: collisionEffect_def die_def Let_def split: prod.splits)
qed






subsection \<open>The played states\<close>

lemma collisionEffect_frame:
  "birdY (collisionEffect s) = birdY s" "birdVelocity (collisionEffect s) = birdVelocity s"
  "lastPipeRef (collisionEffect s) = lastPipeRef s"
  by (auto simp: collisionEffect_def die_def Let_def split: prod.splits)

lemma collisionEffect_map_x: "map x (pipes (collisionEffect s)) = map x (pipes s)"
  using pipeLoop_map_x [of "birdY s" "pipes s"]
  by (auto simp: collisionEffect_def die_def Let_def split: prod.splits)

lemma collisionEffect_set_x: "x ` set (pipes (collisionEffect s)) = x ` set (pipes s)"
  using collisionEffect_map_x [of s] by (metis set_map)

lemma collisionEffect_not_idle:
  "gameState (collisionEffect s) = Idle \<Longrightarrow> collisionEffect s = s"
  "gameState (collisionEffect s) = Playing \<Longrightarrow> gameState s = Playing"
  by (auto simp: collisionEffect_def die_def Let_def split: prod.splits if_splits)

lemma energy_collisionEffect: "energy (collisionEffect s) = energy s"
  by (simp add: energy_def collisionEffect_frame)

lemma markPassed_fields: "x (markPassed p) = x p" "gapY (markPassed p) = gapY p"
  by (simp_all add: markPassed_def)

lemma markPassed_done: "x p + PIPE_WIDTH < birdLeft \<Longrightarrow> passed (markPassed p)"
  by (simp add: markPassed_def)

lemma playedInv_settle:
  assumes "preInv t"
  shows "playedInv (collisionEffect t)"
proof (cases "gameState (collisionEffect t) = Playing")
  case True
  then have pl: "gameState t = Playing" by (rule collisionEffect_not_idle)
  from assms have ainv: "appInv t" by (simp add: preInv_def)
  from True collisionEffect_dead_iff [OF pl]
  have alive: "\<not> (birdY t \<le> 0 \<or> birdY t + BIRD_SIZE \<ge> GAME_HEIGHT)"
    and free: "\<forall>p \<in> set (pipes t). birdRight > x p \<and> birdLeft < x p + PIPE_WIDTH \<longrightarrow>
                 \<not> (birdY t < gapY p \<or> birdY t + BIRD_SIZE > gapY p + PIPE_GAP)"
    by auto
  from collisionEffect_scores [OF ainv pl alive]
  have ps: "pipes (collisionEffect t) = map markPassed (pipes t)" by simp
  have pre: "preInv (collisionEffect t)"
    using assms True pl appInv_collisionEffect [OF ainv]
    by (auto simp: preInv_def collisionEffect_frame energy_collisionEffect ps markPassed_fields)
  show ?thesis
    unfolding playedInv_def
    using pre alive free
    by (auto simp: collisionEffect_frame ps markPassed_fields markPassed_done not_le not_less)
next
  case False
  have ainv: "appInv (collisionEffect t)"
    using assms by (simp add: preInv_def appInv_collisionEffect)
  show ?thesis
  proof (cases "gameState (collisionEffect t) = Idle")
    case True
    then have "collisionEffect t = t" by (rule collisionEffect_not_idle)
    with assms False show ?thesis by (simp add: playedInv_def)
  next
    case idle: False
    with False ainv show ?thesis by (simp add: playedInv_def preInv_def)
  qed
qed

lemma playedInv_preInv: "playedInv s \<Longrightarrow> preInv s"
  by (simp add: playedInv_def)

lemma playedInv_initial: "playedInv initial"
  by (simp add: playedInv_def preInv_def appInv_initial) (simp add: initial_def)

lemma velocity_bound:
  assumes "energy s \<le> 106" "birdY s + BIRD_SIZE < GAME_HEIGHT"
  shows "birdVelocity s < 28"
proof (rule ccontr)
  assume "\<not> birdVelocity s < 28"
  then have v: "28 \<le> birdVelocity s" by simp
  have "28 * (28 - 6 / 10) \<le> birdVelocity s * (birdVelocity s - 6 / 10)"
    using v by (intro mult_mono) simp_all
  then have "7672 / 10 \<le> (birdVelocity s)\<^sup>2 - 6 / 10 * birdVelocity s"
    by (simp add: power2_eq_square algebra_simps)
  with assms show False by (simp add: energy_def consts_defs)
qed

lemma energy_jump:
  assumes "gameState s = Playing" "0 < birdY s"
  shows "energy (jump s) \<le> 106"
  using assms by (simp add: energy_def jump_def consts_defs)

lemma preInv_jump:
  assumes "preInv s"
  shows "preInv (jump s)"
proof -
  have ainv: "appInv (jump s)" using assms by (simp add: preInv_def appInv_jump)
  show ?thesis
  proof (cases "gameState s")
    case Idle
    with assms ainv show ?thesis
      by (simp add: preInv_def) (simp add: jump_def energy_def consts_defs)
  next
    case Playing
    have e: "0 < birdY s \<longrightarrow> energy (jump s) \<le> 106"
      using energy_jump [OF Playing] by simp
    from Playing have j: "gameState (jump s) = Playing" "birdY (jump s) = birdY s"
      "pipes (jump s) = pipes s" "birdVelocity (jump s) = JUMP_FORCE"
      by (simp_all add: jump_def)
    from assms Playing ainv e show ?thesis
      by (simp add: preInv_def j)
  next
    case Dead
    with ainv show ?thesis
      by (simp add: preInv_def) (simp add: jump_def)
  qed
qed

lemma gameLoop_fields:
  "birdVelocity (gameLoop s r) = birdVelocity s + GRAVITY"
  "birdY (gameLoop s r) = max 0 (min (GAME_HEIGHT - BIRD_SIZE) (birdY s + birdVelocity s))"
  "gameState (gameLoop s r) = gameState s"
  by (simp_all add: gameLoop_def Let_def)

lemma gameLoop_pipe_origin:
  assumes "q \<in> set (pipes (gameLoop s r))" "x q < GAME_WIDTH"
  shows "\<exists>p \<in> set (pipes s). q = movePipe p"
  using assms by (auto simp: gameLoop_def Let_def split: if_splits)

lemma energy_gameLoop:
  assumes "0 < birdY (gameLoop s r)" "birdY (gameLoop s r) + BIRD_SIZE < GAME_HEIGHT"
  shows "energy (gameLoop s r) = energy s"
proof -
  from assms have y: "birdY (gameLoop s r) = birdY s + birdVelocity s"
    by (auto simp: gameLoop_fields max_def min_def split: if_splits)
  show ?thesis
    by (simp add: energy_def y gameLoop_fields(1) power2_eq_square algebra_simps)
qed

text \<open>The position a settled, playing state has next to an obstacle it is about to clear.\<close>

lemma playedInv_near:
  assumes "playedInv s" "gameState s = Playing" "p \<in> set (pipes s)"
      "0 < x p" "x p \<le> PIPE_SPEED"
  shows "75 \<le> birdY s \<and> birdY s \<le> 475 \<and> JUMP_FORCE \<le> birdVelocity s \<and> birdVelocity s < 28"
proof -
  from assms(1,2) have y: "0 < birdY s" "birdY s + BIRD_SIZE < GAME_HEIGHT"
    and v: "JUMP_FORCE \<le> birdVelocity s" and e: "energy s \<le> 106"
    by (simp_all add: playedInv_def preInv_def)
  from assms(1,3) have g: "75 \<le> gapY p" "gapY p + PIPE_GAP + 75 \<le> GAME_HEIGHT"
    by (auto simp: playedInv_def preInv_def appInv_def pipesInv_def)
  from assms(4,5) have "birdRight > x p \<and> birdLeft < x p + PIPE_WIDTH"
    by (simp add: consts_defs)
  with assms(1-3) have "gapY p \<le> birdY s \<and> birdY s + BIRD_SIZE \<le> gapY p + PIPE_GAP"
    by (auto simp: playedInv_def)
  with g have "75 \<le> birdY s \<and> birdY s \<le> 475" by (simp add: consts_defs)
  with v velocity_bound [OF e y(2)] show ?thesis by simp
qed

lemma preInv_gameLoop:
  assumes "playedInv s" "gameState s = Playing" "0 \<le> r" "r < 1"
  shows "preInv (gameLoop s r)"
proof -
  from assms(1) have ainv: "appInv s" by (simp add: playedInv_def preInv_def)
  from assms(1,2) have v: "JUMP_FORCE \<le> birdVelocity s" and e: "energy s \<le> 106"
    and y: "0 < birdY s" "birdY s + BIRD_SIZE < GAME_HEIGHT"
    by (simp_all add: playedInv_def preInv_def)
  have a: "appInv (gameLoop s r)" using ainv assms(3,4) by (rule appInv_gameLoop)
  have b: "JUMP_FORCE \<le> birdVelocity (gameLoop s r)"
    using v by (simp add: gameLoop_fields consts_defs)
  have c: "0 < birdY (gameLoop s r) \<and> birdY (gameLoop s r) + BIRD_SIZE < GAME_HEIGHT
             \<longrightarrow> energy (gameLoop s r) \<le> 106"
    using e energy_gameLoop [of s r] by simp
  have d: "\<forall>q \<in> set (pipes (gameLoop s r)). - PIPE_SPEED < x q \<and> x q \<le> 0 \<longrightarrow>
             65 \<le> birdY (gameLoop s r) \<and> birdY (gameLoop s r) \<le> 503"
  proof (intro ballI impI)
    fix q assume q: "q \<in> set (pipes (gameLoop s r))" and xq: "- PIPE_SPEED < x q \<and> x q \<le> 0"
    then have "x q < GAME_WIDTH" by (simp add: consts_defs)
    from gameLoop_pipe_origin [OF q this]
    obtain p where p: "p \<in> set (pipes s)" "q = movePipe p" by blast
    with xq have "0 < x p" "x p \<le> PIPE_SPEED" by (simp_all add: movePipe_def)
    from playedInv_near [OF assms(1,2) p(1) this]
    show "65 \<le> birdY (gameLoop s r) \<and> birdY (gameLoop s r) \<le> 503"
      by (simp add: gameLoop_fields consts_defs)
  qed
  from a b c d assms(2) show ?thesis
    by (simp add: preInv_def gameLoop_fields)
qed

lemma preInv_gameLoopEffect:
  assumes "playedInv s" "0 \<le> r" "r < 1"
  shows "preInv (gameLoopEffect s r)"
  using assms preInv_gameLoop [of s r]
  by (simp add: gameLoopEffect_def playedInv_preInv)

lemma played_playedInv: "played s \<Longrightarrow> playedInv s"
proof (induction rule: played.induct)
  case played_initial
  show ?case by (rule playedInv_initial)
next
  case (played_activate s)
  then show ?case by (intro playedInv_settle preInv_jump playedInv_preInv)
next
  case (played_frame s r)
  then show ?case by (intro playedInv_settle preInv_gameLoopEffect)
next
  case (played_frame_activate s r)
  then show ?case by (intro playedInv_settle preInv_jump preInv_gameLoopEffect)
qed







lemma played_reachable: "played s \<Longrightarrow> reachable s"
proof (induction rule: played.induct)
  case played_initial
  show ?case by (rule reach_initial)
next
  case (played_activate s)
  then show ?case by (intro reach_step [OF reach_step [OF _ step.activate] step.evaluate])
next
  case (played_frame s r)
  then show ?case by (intro reach_step [OF reach_step [OF _ step.frame] step.evaluate])
next
  case (played_frame_activate s r)
  then show ?case
    by (intro reach_step [OF reach_step [OF reach_step [OF _ step.frame] step.activate]
          step.evaluate])
qed

lemma evaluated_reachable: "evaluated s \<Longrightarrow> reachable s"
proof (induction rule: evaluated.induct)
  case (eval_again s)
  then show ?case by (rule played_reachable)
next
  case (eval_activate s)
  then show ?case by (intro reach_step [OF played_reachable step.activate])
next
  case (eval_frame s r)
  then show ?case by (intro reach_step [OF played_reachable step.frame])
next
  case (eval_frame_activate s r)
  then show ?case
    by (intro reach_step [OF reach_step [OF played_reachable step.frame] step.activate])
qed









text \<open>
  A run of the collision effect on a state it has left, and on such a state after an
  activation during play, changes nothing: taking the effect to run there is harmless.
\<close>

lemma collisionEffect_nothing_to_do:
  assumes "appInv s" "gameState s = Playing"
      "0 < birdY s" "birdY s + BIRD_SIZE < GAME_HEIGHT"
      "\<forall>p \<in> set (pipes s).
          (x p + PIPE_WIDTH < birdLeft \<longrightarrow> passed p)
          \<and> (birdRight > x p \<and> birdLeft < x p + PIPE_WIDTH \<longrightarrow>
               gapY p \<le> birdY s \<and> birdY s + BIRD_SIZE \<le> gapY p + PIPE_GAP)"
  shows "collisionEffect s = s"
proof -
  have srt: "sorted_wrt (\<lambda>p q. 200 < x q - x p) (pipes s)"
    using assms(1) by (simp add: appInv_def pipesInv_def)
  have m: "map markPassed (pipes s) = pipes s"
    using assms(5) by (intro map_idI) (auto simp: markPassed_def)
  have f: "filter (\<lambda>p. \<not> passed p \<and> x p + PIPE_WIDTH < birdLeft) (pipes s) = []"
    using assms(5) by (auto simp: filter_empty_conv)
  have d: "\<not> snd (snd (pipeLoop (birdY s) (pipes s)))"
    using assms(5) by (auto simp: pipeLoop_dead_iff not_less)
  from pipeLoop_sorted [OF srt, of "birdY s"] m f d
  have "pipeLoop (birdY s) (pipes s) = (pipes s, 0, False)"
    by (cases "pipeLoop (birdY s) (pipes s)") simp
  with assms(2-4) show ?thesis
    by (simp add: collisionEffect_def Let_def)
qed

lemma collisionEffect_played: "played s \<Longrightarrow> collisionEffect s = s"
proof -
  assume "played s"
  then have inv: "playedInv s" by (rule played_playedInv)
  show ?thesis
  proof (cases "gameState s = Playing")
    case True
    with inv show ?thesis
      by (intro collisionEffect_nothing_to_do) (auto simp: playedInv_def preInv_def)
  next
    case False
    then show ?thesis by (simp add: collisionEffect_def)
  qed
qed

lemma collisionEffect_jump_playing:
  assumes "played s" "gameState s = Playing"
  shows "collisionEffect (jump s) = jump s"
proof -
  from assms(1) have inv: "playedInv s" by (rule played_playedInv)
  have j: "gameState (jump s) = Playing" "birdY (jump s) = birdY s" "pipes (jump s) = pipes s"
    using assms(2) by (simp_all add: jump_def)
  have "appInv (jump s)" using inv by (simp add: playedInv_def preInv_def appInv_jump)
  with inv assms(2) show ?thesis
    by (intro collisionEffect_nothing_to_do) (auto simp: j playedInv_def)
qed



subsection \<open>Reset on activation after the round has ended\<close>

text \<open>
  C5. Calling \<^verbatim>\<open>jump\<close> while the phase is \<^verbatim>\<open>dead\<close> puts the character back at the
  vertical centre of the playfield, sets velocity, score and rotation to zero, empties
  the obstacle list and makes the phase \<^verbatim>\<open>idle\<close>.
\<close>

theorem jump_dead_resets:
  assumes "gameState s = Dead"
  shows "birdY (jump s) = GAME_HEIGHT / 2 \<and> birdY (jump s) = 300
       \<and> birdVelocity (jump s) = 0 \<and> pipes (jump s) = [] \<and> score (jump s) = 0
       \<and> birdRotation (jump s) = 0 \<and> gameState (jump s) = Idle"
  using assms by (simp add: jump_def GAME_HEIGHT_def)

theorem jump_dead_resets_witness:
  "gameState deadState = Dead
   \<and> birdY (jump deadState) = 300
   \<and> birdVelocity (jump deadState) = 0
   \<and> pipes (jump deadState) = []
   \<and> score (jump deadState) = 0
   \<and> birdRotation (jump deadState) = 0
   \<and> gameState (jump deadState) = Idle"
proof -
  have d: "gameState deadState = Dead" by (simp add: deadState_def)
  show ?thesis using d jump_dead_resets [OF d] by simp
qed

subsection \<open>Collision with the playfield boundary\<close>

text \<open>
  C6. While the phase is \<^verbatim>\<open>playing\<close>, if the character's top edge is at or above the
  top of the playfield or its bottom edge at or below the bottom, the collision effect
  makes the phase \<^verbatim>\<open>dead\<close>. In particular a simulation step that drives the character
  onto the bottom (where the position is clamped to \<open>GAME_HEIGHT - BIRD_SIZE\<close>) is
  followed by the end of the round.
\<close>

theorem boundary_collision_ends_round:
  assumes "gameState s = Playing"
  shows "(birdY s \<le> 0 \<or> birdY s + BIRD_SIZE \<ge> GAME_HEIGHT
            \<longrightarrow> gameState (collisionEffect s) = Dead)
       \<and> (birdY s + birdVelocity s \<ge> GAME_HEIGHT - BIRD_SIZE
            \<longrightarrow> birdY (gameLoopEffect s r) = GAME_HEIGHT - BIRD_SIZE
                \<and> gameState (collisionEffect (gameLoopEffect s r)) = Dead)"
  using assms
  by (simp add: collisionEffect_def gameLoopEffect_def gameLoop_def die_def Let_def consts_defs)

theorem boundary_collision_ends_round_witness:
  "gameState floorState = Playing
   \<and> birdY floorState + BIRD_SIZE \<ge> GAME_HEIGHT
   \<and> birdY floorState + birdVelocity floorState \<ge> GAME_HEIGHT - BIRD_SIZE
   \<and> gameState (collisionEffect floorState) = Dead
   \<and> birdY (gameLoopEffect floorState 0) = GAME_HEIGHT - BIRD_SIZE
   \<and> gameState (collisionEffect (gameLoopEffect floorState 0)) = Dead"
proof -
  have p: "gameState floorState = Playing" by (simp add: floorState_def)
  have b: "birdY floorState + BIRD_SIZE \<ge> GAME_HEIGHT"
    "birdY floorState + birdVelocity floorState \<ge> GAME_HEIGHT - BIRD_SIZE"
    by (simp_all add: floorState_def consts_defs)
  show ?thesis using boundary_collision_ends_round [OF p, of 0] p b by blast
qed

subsection \<open>Obstacles that have left the screen\<close>

lemma moved_out_not_kept:
  assumes "x p - PIPE_SPEED \<le> - PIPE_WIDTH"
  shows "movePipe p \<notin> set (pipes (gameLoop s r))"
proof
  assume "movePipe p \<in> set (pipes (gameLoop s r))"
  then have "x (movePipe p) > - PIPE_WIDTH \<or> x (movePipe p) = GAME_WIDTH"
    by (auto simp: gameLoop_def Let_def split: if_splits)
  with assms show False by (simp add: movePipe_def consts_defs)
qed

text \<open>
  C7. After every simulation step the obstacle list holds no obstacle with
  \<open>x \<le> - PIPE_WIDTH\<close> (that is, \<open>x \<le> -80\<close>): an obstacle whose moved position is at or
  below \<open>- PIPE_WIDTH\<close> is dropped in that step, and every obstacle of the new list is
  an obstacle of the old list moved left or sits at the right edge \<open>GAME_WIDTH\<close>, so a
  dropped obstacle does not come back.
\<close>

theorem no_pipe_left_of_screen:
  "(\<forall>p \<in> set (pipes (gameLoop s r)). \<not> x p \<le> - PIPE_WIDTH)
   \<and> (\<forall>p \<in> set (pipes s). x p - PIPE_SPEED \<le> - PIPE_WIDTH
         \<longrightarrow> movePipe p \<notin> set (pipes (gameLoop s r)))
   \<and> (\<forall>q \<in> set (pipes (gameLoop s r)).
         (\<exists>p \<in> set (pipes s). q = movePipe p) \<or> x q = GAME_WIDTH)"
proof (intro conjI)
  show "\<forall>p \<in> set (pipes (gameLoop s r)). \<not> x p \<le> - PIPE_WIDTH"
    by (auto simp: gameLoop_def Let_def consts_defs)
  show "\<forall>p \<in> set (pipes s). x p - PIPE_SPEED \<le> - PIPE_WIDTH
         \<longrightarrow> movePipe p \<notin> set (pipes (gameLoop s r))"
    by (simp add: moved_out_not_kept)
  show "\<forall>q \<in> set (pipes (gameLoop s r)).
         (\<exists>p \<in> set (pipes s). q = movePipe p) \<or> x q = GAME_WIDTH"
    by (auto simp: gameLoop_def Let_def)
qed

lemma leavingState_step:
  "pipes (gameLoop leavingState 0) = [\<lparr> x = 124, gapY = 150, passed = False \<rparr>]"
  by (simp add: gameLoop_def leavingState_def movePipe_def Let_def consts_defs)

theorem no_pipe_left_of_screen_witness:
  "\<lparr> x = - 76, gapY = 100, passed = True \<rparr> \<in> set (pipes leavingState)
   \<and> - 76 - PIPE_SPEED \<le> - PIPE_WIDTH
   \<and> movePipe \<lparr> x = - 76, gapY = 100, passed = True \<rparr> \<notin> set (pipes (gameLoop leavingState 0))
   \<and> \<lparr> x = 124, gapY = 150, passed = False \<rparr> \<in> set (pipes (gameLoop leavingState 0))
   \<and> \<not> 124 \<le> - PIPE_WIDTH
   \<and> \<lparr> x = 128, gapY = 150, passed = False \<rparr> \<in> set (pipes leavingState)
   \<and> \<lparr> x = 124, gapY = 150, passed = False \<rparr> = movePipe \<lparr> x = 128, gapY = 150, passed = False \<rparr>"
proof -
  have m: "\<lparr> x = - 76, gapY = 100, passed = True \<rparr> \<in> set (pipes leavingState)"
    "\<lparr> x = 128, gapY = 150, passed = False \<rparr> \<in> set (pipes leavingState)"
    by (simp_all add: leavingState_def)
  have o: "x \<lparr> x = - 76, gapY = 100, passed = True \<rparr> - PIPE_SPEED \<le> - PIPE_WIDTH"
    by (simp add: consts_defs)
  have n: "\<lparr> x = 124, gapY = 150, passed = False \<rparr> \<in> set (pipes (gameLoop leavingState 0))"
    by (simp add: leavingState_step)
  note t = no_pipe_left_of_screen [of leavingState 0]
  from t m(1) o
  have a: "movePipe \<lparr> x = - 76, gapY = 100, passed = True \<rparr> \<notin> set (pipes (gameLoop leavingState 0))"
    by blast
  from t n have "\<not> x \<lparr> x = 124, gapY = 150, passed = False \<rparr> \<le> - PIPE_WIDTH"
    by blast
  then have b: "\<not> 124 \<le> - PIPE_WIDTH" by simp
  have c: "\<lparr> x = 124, gapY = 150, passed = False \<rparr> = movePipe \<lparr> x = 128, gapY = 150, passed = False \<rparr>"
    "- 76 - PIPE_SPEED \<le> - PIPE_WIDTH"
    by (simp_all add: movePipe_def consts_defs)
  show ?thesis using m a n b c by blast
qed

subsection \<open>Spawning\<close>

text \<open>
  C8. When the spawn accumulator, advanced by the horizontal speed, exceeds 200 during a
  simulation step, it is set to zero and exactly one obstacle is appended to the
  obstacles that stay, at \<open>x = GAME_WIDTH\<close> with \<^verbatim>\<open>passed = false\<close>; for every draw
  \<open>r\<close> in \<open>[0, 1)\<close> its gap offset satisfies \<open>75 \<le> gapY\<close> and
  \<open>gapY + 180 + 75 \<le> 600\<close>.
\<close>

theorem spawn_when_accumulator_exceeds:
  assumes "lastPipeRef s + PIPE_SPEED > 200" "0 \<le> r" "r < 1"
  shows "lastPipeRef (gameLoop s r) = 0
       \<and> pipes (gameLoop s r)
           = filter (\<lambda>pipe. x pipe > - PIPE_WIDTH) (map movePipe (pipes s))
             @ [\<lparr> x = GAME_WIDTH, gapY = spawnGapY r, passed = False \<rparr>]
       \<and> 75 \<le> spawnGapY r \<and> spawnGapY r + 180 + 75 \<le> 600
       \<and> spawnGapY r + PIPE_GAP + 75 \<le> GAME_HEIGHT"
  using assms spawnGapY_bounds [OF assms(2,3)]
  by (simp add: gameLoop_def Let_def consts_defs)

theorem spawn_when_accumulator_exceeds_witness:
  "lastPipeRef passingState + PIPE_SPEED > 200 \<and> (0::real) \<le> 1 / 2 \<and> (1::real) / 2 < 1
   \<and> lastPipeRef (gameLoop passingState (1 / 2)) = 0
   \<and> pipes (gameLoop passingState (1 / 2))
       = [\<lparr> x = - 8, gapY = 75, passed = False \<rparr>,
          \<lparr> x = 196, gapY = 75, passed = False \<rparr>,
          \<lparr> x = 400, gapY = 210, passed = False \<rparr>]
   \<and> (75::real) \<le> 210 \<and> (210::real) + 180 + 75 \<le> 600"
proof -
  have a: "lastPipeRef passingState + PIPE_SPEED > 200"
    by (simp add: passingState_def consts_defs)
  have r: "(0::real) \<le> 1 / 2" "(1::real) / 2 < 1" by simp_all
  have g: "spawnGapY (1 / 2) = 210" by (simp add: spawnGapY_def consts_defs)
  have f: "filter (\<lambda>pipe. x pipe > - PIPE_WIDTH) (map movePipe (pipes passingState))
             = [\<lparr> x = - 8, gapY = 75, passed = False \<rparr>,
                \<lparr> x = 196, gapY = 75, passed = False \<rparr>]"
    by (simp add: passingState_def movePipe_def consts_defs)
  show ?thesis
    using spawn_when_accumulator_exceeds [OF a r] a
    by (simp add: g f GAME_WIDTH_def)
qed

subsection \<open>The best score\<close>

lemma highScore_step:
  assumes "step s s'"
  shows "highScore s \<le> highScore s'
       \<and> (highScore s' \<noteq> highScore s \<longrightarrow>
            gameState s = Playing \<and> gameState s' = Dead
            \<and> score s > highScore s \<and> highScore s' = score s)
       \<and> (gameState s = Playing \<and> gameState s' = Dead \<longrightarrow>
            highScore s' = (if score s > highScore s then score s else highScore s))"
  using assms
proof (induction rule: step.induct)
  case (activate s)
  then show ?case by (simp add: jump_def)
next
  case (frame r s)
  then show ?case by (simp add: gameLoopEffect_def gameLoop_def Let_def)
next
  case (evaluate s)
  then show ?case
    by (auto simp: collisionEffect_def die_def Let_def split: prod.splits)
qed

lemma highScore_steps: "step\<^sup>*\<^sup>* s s' \<Longrightarrow> highScore s \<le> highScore s'"
  by (induction rule: rtranclp_induct) (auto dest: highScore_step)

text \<open>
  C9. The best score never decreases along a run. A single transition changes it only
  when it takes the phase from \<^verbatim>\<open>playing\<close> to \<^verbatim>\<open>dead\<close>, and then exactly when the
  score of the round is strictly greater than the stored best score, which it
  replaces; an activation (the reset from \<^verbatim>\<open>dead\<close> to \<^verbatim>\<open>idle\<close> included) and a
  simulation step leave it unchanged.
\<close>

theorem highScore_monotone:
  "(step\<^sup>*\<^sup>* s t \<longrightarrow> highScore s \<le> highScore t)
   \<and> (step s s' \<longrightarrow>
        (highScore s' \<noteq> highScore s \<longrightarrow>
           gameState s = Playing \<and> gameState s' = Dead
           \<and> score s > highScore s \<and> highScore s' = score s)
        \<and> (gameState s = Playing \<and> gameState s' = Dead \<longrightarrow>
             highScore s' = (if score s > highScore s then score s else highScore s)))
   \<and> highScore (jump s) = highScore s
   \<and> highScore (gameLoopEffect s r) = highScore s"
proof (intro conjI)
  show "step\<^sup>*\<^sup>* s t \<longrightarrow> highScore s \<le> highScore t"
    by (rule impI) (rule highScore_steps)
  show "step s s' \<longrightarrow>
        (highScore s' \<noteq> highScore s \<longrightarrow>
           gameState s = Playing \<and> gameState s' = Dead
           \<and> score s > highScore s \<and> highScore s' = score s)
        \<and> (gameState s = Playing \<and> gameState s' = Dead \<longrightarrow>
             highScore s' = (if score s > highScore s then score s else highScore s))"
    using highScore_step [of s s'] by blast
  show "highScore (jump s) = highScore s"
    by (simp add: jump_def)
  show "highScore (gameLoopEffect s r) = highScore s"
    by (simp add: gameLoopEffect_def gameLoop_def Let_def)
qed

theorem highScore_monotone_witness:
  "step\<^sup>*\<^sup>* floorState (jump (collisionEffect floorState))
   \<and> step floorState (collisionEffect floorState)
   \<and> gameState floorState = Playing \<and> gameState (collisionEffect floorState) = Dead
   \<and> highScore floorState = 1 \<and> score floorState = 3
   \<and> highScore (collisionEffect floorState) \<noteq> highScore floorState
   \<and> highScore (collisionEffect floorState) = 3
   \<and> highScore floorState \<le> highScore (jump (collisionEffect floorState))"
proof -
  have s1: "step floorState (collisionEffect floorState)" by (rule step.evaluate)
  have s2: "step (collisionEffect floorState) (jump (collisionEffect floorState))"
    by (rule step.activate)
  have ss: "step\<^sup>*\<^sup>* floorState (jump (collisionEffect floorState))"
    using s1 s2 by (rule converse_rtranclp_into_rtranclp [OF _ r_into_rtranclp])
  have f: "gameState floorState = Playing" "highScore floorState = 1" "score floorState = 3"
    by (simp_all add: floorState_def)
  have d: "gameState (collisionEffect floorState) = Dead"
    by (simp add: floorState_def collisionEffect_def die_def Let_def consts_defs)
  note t = highScore_monotone [of floorState "jump (collisionEffect floorState)"
            "collisionEffect floorState" 0]
  from t ss have m: "highScore floorState \<le> highScore (jump (collisionEffect floorState))"
    by blast
  from t s1 f(1) d
  have "highScore (collisionEffect floorState)
          = (if score floorState > highScore floorState then score floorState
             else highScore floorState)"
    by blast
  with f have h: "highScore (collisionEffect floorState) = 3" by simp
  with f have n: "highScore (collisionEffect floorState) \<noteq> highScore floorState" by simp
  show ?thesis using ss s1 f d h n m by blast
qed

subsection \<open>The spawn accumulator across rounds\<close>

text \<open>
  C10. Calling \<^verbatim>\<open>jump\<close> while the phase is \<^verbatim>\<open>dead\<close> leaves \<^verbatim>\<open>lastPipeRef\<close> (and the
  best score) as it is. The value carries into the next round: whether the first frame
  of the next round already spawns an obstacle depends on the value the previous round
  ended with.
\<close>

theorem reset_keeps_accumulator:
  assumes "gameState s = Dead"
  shows "lastPipeRef (jump s) = lastPipeRef s
       \<and> highScore (jump s) = highScore s
       \<and> gameState (jump (jump s)) = Playing
       \<and> lastPipeRef (jump (jump s)) = lastPipeRef s
       \<and> (pipes (gameLoopEffect (jump (jump s)) r) \<noteq> []) = (lastPipeRef s + PIPE_SPEED > 200)"
  using assms by (simp add: jump_def gameLoopEffect_def gameLoop_def Let_def)

theorem reset_keeps_accumulator_witness:
  "gameState deadState = Dead
   \<and> lastPipeRef deadState = 200
   \<and> lastPipeRef (jump deadState) = 200
   \<and> lastPipeRef deadState + PIPE_SPEED > 200
   \<and> pipes (gameLoopEffect (jump (jump deadState)) 0) \<noteq> []"
proof -
  have d: "gameState deadState = Dead" "lastPipeRef deadState = 200"
    by (simp_all add: deadState_def)
  have a: "lastPipeRef deadState + PIPE_SPEED > 200"
    by (simp add: deadState_def consts_defs)
  show ?thesis using reset_keeps_accumulator [OF d(1), of 0] d a by simp
qed

end
